theory Spec2Isabelle
  imports Main "HOL-Library.Multiset" "HOL-Library.Char_ord" "HOL-Library.List_Lexorder"
begin

section \<open>Translation entries and printed messages\<close>

text \<open>
  The script \<^verbatim>\<open>update_language_files.py\<close> reads gettext po files through the
  library polib. An entry of a po file is a \<^verbatim>\<open>polib.POEntry\<close>; the fields the two
  checks read are kept here. A Python \<^verbatim>\<open>str\<close> is a \<open>string\<close>, one \<open>char\<close> for each
  character. \<open>msgstr_plural\<close> is a dictionary from the plural index to the translated
  form; \<open>obsolete\<close> is compared with \<open>0\<close> by the script and is an integer here.
\<close>

record entry =
  msgid :: string
  msgstr :: string
  msgid_plural :: string
  msgstr_plural :: "(nat \<times> string) list"
  flags :: "string list"
  obsolete :: int

text \<open>
  Every \<^verbatim>\<open>print\<close> of an error is a message; the layout of the text is left out, the
  values interpolated into it are kept. The progress lines (the name of the po file
  being read) are not messages.
\<close>

datatype message =
    CurlyNested string
  | CurlyNotBalanced string
  | OtherError string string
  | NumberDiffers char string
  | NamesDiffer "string list" "string list" string
  | SourceString string

datatype shortcut_message =
  MaybeRedundant string bool string "string list" "string list"

datatype error = ValueError "string list" "string list"

section \<open>The regular expressions\<close>

text \<open>
  \<^verbatim>\<open>REX_SHORTCUT_LETTER = re.compile(r'&(\w)')\<close>. Which characters are word
  characters is decided by the table of the regular expression engine, a parameter
  \<open>word_char\<close> here. \<^verbatim>\<open>search\<close> returns the leftmost match; the result is its group.
\<close>

fun rex_shortcut_letter_search :: "(char \<Rightarrow> bool) \<Rightarrow> string \<Rightarrow> char option" where
  "rex_shortcut_letter_search word_char (a # b # cs) =
     (if a = CHR ''&'' \<and> word_char b then Some b
      else rex_shortcut_letter_search word_char (b # cs))"
| "rex_shortcut_letter_search word_char cs = None"

text \<open>\<^verbatim>\<open>rex_reduce = re.compile(r'[^\{\}]')\<close>, used as \<^verbatim>\<open>rex_reduce.sub('', s)\<close>.\<close>

definition rex_reduce_sub :: "string \<Rightarrow> string" where
  "rex_reduce_sub s = filter (\<lambda>c. \<not> (c \<noteq> CHR ''{'' \<and> c \<noteq> CHR ''}'')) s"

text \<open>
  \<^verbatim>\<open>rex_curly_pair = re.compile(r'\{\}')\<close>: \<^verbatim>\<open>sub('', s)\<close> deletes the matches and
  \<^verbatim>\<open>findall(s)\<close> lists them, both going from left to right over matches that do not
  overlap.
\<close>

fun rex_curly_pair_sub :: "string \<Rightarrow> string" where
  "rex_curly_pair_sub (a # b # cs) =
     (if a = CHR ''{'' \<and> b = CHR ''}'' then rex_curly_pair_sub cs
      else a # rex_curly_pair_sub (b # cs))"
| "rex_curly_pair_sub cs = cs"

fun rex_curly_pair_findall :: "string \<Rightarrow> string list" where
  "rex_curly_pair_findall (a # b # cs) =
     (if a = CHR ''{'' \<and> b = CHR ''}'' then ''{}'' # rex_curly_pair_findall cs
      else rex_curly_pair_findall (b # cs))"
| "rex_curly_pair_findall cs = []"

text \<open>
  \<^verbatim>\<open>rex_names = re.compile(r'\{(.*?)\}')\<close>. After an opening bracket the lazy
  \<^verbatim>\<open>.*?\<close> takes the fewest characters other than a newline up to a closing bracket:
  \<open>closing_bracket\<close> is the number of characters taken, if the match succeeds.
  \<^verbatim>\<open>findall\<close> lists the groups and goes on behind each match; where no match starts
  it moves one character on.
\<close>

fun closing_bracket :: "string \<Rightarrow> nat option" where
  "closing_bracket [] = None"
| "closing_bracket (c # cs) =
     (if c = CHR ''}'' then Some 0
      else if c = CHR 0x0A then None
      else map_option Suc (closing_bracket cs))"

fun rex_names_findall :: "string \<Rightarrow> string list" where
  "rex_names_findall [] = []"
| "rex_names_findall (c # cs) =
     (if c = CHR ''{'' then
        (case closing_bracket cs of
           Some n \<Rightarrow> take n cs # rex_names_findall (drop (Suc n) cs)
         | None \<Rightarrow> rex_names_findall cs)
      else rex_names_findall cs)"

section \<open>The syntax check of the po files\<close>

definition curly_brackets_balanced :: "string \<Rightarrow> bool \<times> message list" where
  "curly_brackets_balanced to_check =
     (let reduced = rex_reduce_sub to_check;
          invalid = rex_curly_pair_sub reduced
      in if rex_curly_pair_findall invalid \<noteq> [] then (False, [CurlyNested to_check])
         else if invalid \<noteq> [] then (False, [CurlyNotBalanced to_check])
         else (True, []))"

text \<open>
  \<^verbatim>\<open>_other_errors\<close> hands the string to \<^verbatim>\<open>string.Formatter().parse\<close> of the Python
  library and catches every exception. The parser is the parameter \<open>formatter_parse\<close>:
  it gives the text of the exception, or \<open>None\<close> when the string parses.
\<close>

definition other_errors :: "(string \<Rightarrow> string option) \<Rightarrow> string \<Rightarrow> bool \<times> message list" where
  "other_errors formatter_parse to_check =
     (case formatter_parse to_check of
        Some exc \<Rightarrow> (False, [OtherError exc to_check])
      | None \<Rightarrow> (True, []))"

definition place_holders :: "string \<Rightarrow> string \<Rightarrow> string list \<Rightarrow> bool \<times> message list" where
  "place_holders trans_string src_string flgs =
     (if ''ignore-placeholder-compare'' \<in> set flgs then (True, [])
      else
        (case find (\<lambda>bracket. count_list src_string bracket \<noteq> count_list trans_string bracket)
                ''{}'' of
           Some bracket \<Rightarrow> (False, [NumberDiffers bracket trans_string])
         | None \<Rightarrow>
            (let org_names = rex_names_findall src_string;
                 trans_names = rex_names_findall trans_string
             in if sort org_names \<noteq> sort trans_names
                then (False, [NamesDiffer org_names trans_names trans_string])
                else (True, []))))"

text \<open>
  The body of the loop over the entries. The three checks are joined by \<^verbatim>\<open>or\<close>: a
  check runs only if the ones before it returned true, and the source string is printed
  after the message of the check that failed.
\<close>

definition has_plural :: "entry \<Rightarrow> bool" where
  "has_plural e = (msgstr_plural e \<noteq> [] \<or> msgid_plural e \<noteq> [])"

definition check_entry :: "(string \<Rightarrow> string option) \<Rightarrow> entry \<Rightarrow> message list" where
  "check_entry formatter_parse e =
     (if has_plural e then []
      else
        (let (ok1, out1) = curly_brackets_balanced (msgstr e) in
         if \<not> ok1 then out1 @ [SourceString (msgid e)]
         else
           (let (ok2, out2) = other_errors formatter_parse (msgstr e) in
            if \<not> ok2 then out1 @ out2 @ [SourceString (msgid e)]
            else
              (let (ok3, out3) = place_holders (msgstr e) (msgid e) (flags e) in
               if \<not> ok3 then out1 @ out2 @ out3 @ [SourceString (msgid e)]
               else out1 @ out2 @ out3))))"

text \<open>
  A po file is its path and its entries. \<^verbatim>\<open>pof.translated_entries()\<close> of polib keeps
  the entries that polib counts as translated, the parameter \<open>translated\<close>. The result
  has the messages of each po file, in the order of the files and of the entries.
\<close>

type_synonym po_file = "string \<times> entry list"

definition check_syntax_of_po_files ::
  "(string \<Rightarrow> string option) \<Rightarrow> (entry \<Rightarrow> bool) \<Rightarrow> po_file list \<Rightarrow> (string \<times> message list) list" where
  "check_syntax_of_po_files formatter_parse translated po_files =
     map (\<lambda>(po_path, pof). (po_path, concat (map (check_entry formatter_parse) (filter translated pof))))
         po_files"

section \<open>The shortcut check\<close>

definition get_shortcut_entries :: "(char \<Rightarrow> bool) \<Rightarrow> entry list \<Rightarrow> entry list" where
  "get_shortcut_entries word_char po_file =
     filter (\<lambda>e. obsolete e = 0 \<and> rex_shortcut_letter_search word_char (msgid e) \<noteq> None) po_file"

definition expect :: "string list" where
  "expect =
     [''&Backup'', ''&Restore'', ''&Help'',
      ''&General'', ''&Include'', ''&Exclude'', ''&Auto-remove'', ''&Options'',
      ''Back In &Time'', ''E&xpert Options'']"

text \<open>
  The groups are a dictionary from the name of a group to its source strings, in the
  order of insertion. The template \<^verbatim>\<open>messages.pot\<close> is the argument \<open>template\<close>.
\<close>

type_synonym groups = "(string \<times> string list) list"

definition get_shortcut_groups :: "(char \<Rightarrow> bool) \<Rightarrow> entry list \<Rightarrow> error + groups" where
  "get_shortcut_groups word_char template =
     (let real = map msgid (get_shortcut_entries word_char template) in
      if \<not> sort real = sort expect then Inl (ValueError (sort expect) (sort real))
      else
        (let expect' = [''Back In &Time''] @ expect
         in Inr [(''mainwindow'', take 4 expect'), (''manageprofile'', drop 4 expect')]))"

text \<open>
  \<^verbatim>\<open>groups[groupname]\<close> and \<^verbatim>\<open>real[groupname]\<close>: the keys of \<open>real\<close> are those of
  \<open>groups\<close>, so the lookup finds the key.
\<close>

definition lookup :: "(string \<times> string list) list \<Rightarrow> string \<Rightarrow> string list" where
  "lookup d key = (case map_of d key of Some v \<Rightarrow> v | None \<Rightarrow> [])"

text \<open>
  The inner loop \<^verbatim>\<open>for groupname in real\<close> appends the translation of one entry to
  every group that has the source string of the entry.
\<close>

definition add_entry :: "groups \<Rightarrow> entry \<Rightarrow> groups \<Rightarrow> groups" where
  "add_entry grps e real =
     map (\<lambda>(groupname, translations).
            if msgid e \<in> set (lookup grps groupname)
            then (groupname, translations @ [msgstr e])
            else (groupname, translations)) real"

definition group_entries :: "groups \<Rightarrow> entry list \<Rightarrow> groups" where
  "group_entries grps shortcut_entries =
     fold (add_entry grps) shortcut_entries (map (\<lambda>(key, members). (key, [])) grps)"

text \<open>
  The loop that collects the letters: a translation in which the pattern does not match
  raises \<^verbatim>\<open>AttributeError\<close>, which is caught and passed over.
\<close>

fun collect_letters :: "(char \<Rightarrow> bool) \<Rightarrow> string list \<Rightarrow> string \<Rightarrow> string" where
  "collect_letters word_char [] letters = letters"
| "collect_letters word_char (translation # rest) letters =
     (case rex_shortcut_letter_search word_char translation of
        Some c \<Rightarrow> collect_letters word_char rest (letters @ [c])
      | None \<Rightarrow> collect_letters word_char rest letters)"

definition check_group ::
  "(char \<Rightarrow> bool) \<Rightarrow> string \<Rightarrow> groups \<Rightarrow> string \<times> string list \<Rightarrow> shortcut_message list" where
  "check_group word_char po_path grps item =
     (let groupname = fst item;
          translations = snd item;
          letters = collect_letters word_char translations []
      in if length letters > card (set letters)
         then [MaybeRedundant po_path (length letters < length translations) groupname
                 (lookup grps groupname) translations]
         else [])"

definition check_po_file :: "(char \<Rightarrow> bool) \<Rightarrow> groups \<Rightarrow> po_file \<Rightarrow> shortcut_message list" where
  "check_po_file word_char grps po =
     (let shortcut_entries = get_shortcut_entries word_char (snd po);
          real = group_entries grps shortcut_entries
      in concat (map (check_group word_char (fst po) grps) real))"

definition check_shortcuts ::
  "(char \<Rightarrow> bool) \<Rightarrow> entry list \<Rightarrow> po_file list \<Rightarrow> error + shortcut_message list" where
  "check_shortcuts word_char template po_files =
     (case get_shortcut_groups word_char template of
        Inl err \<Rightarrow> Inl err
      | Inr grps \<Rightarrow> Inr (concat (map (check_po_file word_char grps) po_files)))"

section \<open>Predicates of the properties\<close>

text \<open>
  A string has a shortcut marker when some \<^verbatim>\<open>&\<close> in it is followed at once by a word
  character.
\<close>

definition has_marker :: "(char \<Rightarrow> bool) \<Rightarrow> string \<Rightarrow> bool" where
  "has_marker word_char s = (\<exists>i. Suc i < length s \<and> s ! i = CHR ''&'' \<and> word_char (s ! Suc i))"

text \<open>
  The letters of a group in one po file, as the properties speak of them: one letter for
  each entry that is not obsolete, has a marker in its source string, belongs to the group
  and has a marker in its translation.
\<close>

definition letters_used :: "(char \<Rightarrow> bool) \<Rightarrow> string list \<Rightarrow> entry list \<Rightarrow> char multiset" where
  "letters_used word_char members entries =
     mset (List.map_filter (rex_shortcut_letter_search word_char)
            (map msgstr (filter (\<lambda>e. obsolete e = 0 \<and> has_marker word_char (msgid e) \<and>
                                   msgid e \<in> set members) entries)))"

text \<open>
  No closing bracket comes before the opening bracket it closes: reading from the left,
  with \<open>n\<close> brackets open at the start, the number of open brackets never falls below
  zero.
\<close>

fun opened_before_closed :: "nat \<Rightarrow> string \<Rightarrow> bool" where
  "opened_before_closed n [] = True"
| "opened_before_closed n (c # cs) =
     (if c = CHR ''{'' then opened_before_closed (Suc n) cs
      else if c = CHR ''}'' then 0 < n \<and> opened_before_closed (n - 1) cs
      else opened_before_closed n cs)"

section \<open>Inputs of the examples\<close>

text \<open>
  The word characters among the ASCII characters, as \<^verbatim>\<open>\w\<close> has them; a parser that
  raises on no string; an entry with a source string and a translation and nothing else;
  a template with one entry for each expected source string.
\<close>

definition ascii_word_char :: "char \<Rightarrow> bool" where
  "ascii_word_char c =
     (c \<in> set (''abcdefghijklmnopqrstuvwxyz'' @ ''ABCDEFGHIJKLMNOPQRSTUVWXYZ'' @ ''0123456789_''))"

definition no_parse_error :: "string \<Rightarrow> string option" where
  "no_parse_error s = None"

definition example_entry :: "string \<Rightarrow> string \<Rightarrow> entry" where
  "example_entry src tr =
     \<lparr>msgid = src, msgstr = tr, msgid_plural = [], msgstr_plural = [], flags = [], obsolete = 0\<rparr>"

definition example_template :: "entry list" where
  "example_template = map (\<lambda>src. example_entry src []) expect"

section \<open>Lemmas on the regular expressions and the loops\<close>

lemma collect_letters_map_filter:
  "collect_letters W ts acc = acc @ List.map_filter (rex_shortcut_letter_search W) ts"
  by (induction ts arbitrary: acc) (simp_all add: List.map_filter_simps split: option.split)

lemma map_filter_app:
  "List.map_filter f (xs @ ys) = List.map_filter f xs @ List.map_filter f ys"
  by (simp add: List.map_filter_def)

lemma search_first:
  "Suc i < length t \<Longrightarrow> t ! i = CHR ''&'' \<Longrightarrow> W (t ! Suc i) \<Longrightarrow>
   (\<forall>j<i. \<not> (t ! j = CHR ''&'' \<and> W (t ! Suc j))) \<Longrightarrow>
   rex_shortcut_letter_search W t = Some (t ! Suc i)"
proof (induction W t arbitrary: i rule: rex_shortcut_letter_search.induct)
  case (1 W a b cs)
  show ?case
  proof (cases i)
    case 0
    then show ?thesis using "1.prems" by simp
  next
    case (Suc k)
    have first: "\<not> (a = CHR ''&'' \<and> W b)"
      using "1.prems"(4) Suc by (auto dest: spec [of _ 0])
    have later: "\<forall>j<k. \<not> ((b # cs) ! j = CHR ''&'' \<and> W ((b # cs) ! Suc j))"
    proof (intro allI impI)
      fix j assume "j < k"
      then have "Suc j < i" using Suc by simp
      then show "\<not> ((b # cs) ! j = CHR ''&'' \<and> W ((b # cs) ! Suc j))"
        using "1.prems"(4) by (auto dest: spec [of _ "Suc j"])
    qed
    have "rex_shortcut_letter_search W (b # cs) = Some ((b # cs) ! Suc k)"
      using "1.IH" [OF first, of k] "1.prems"(1-3) Suc later by simp
    then show ?thesis using first Suc by auto
  qed
qed simp_all

lemma search_None_iff:
  "rex_shortcut_letter_search W t = None \<longleftrightarrow> \<not> has_marker W t"
proof
  assume n: "rex_shortcut_letter_search W t = None"
  show "\<not> has_marker W t"
  proof
    assume "has_marker W t"
    then obtain k where k: "Suc k < length t \<and> t ! k = CHR ''&'' \<and> W (t ! Suc k)"
      unfolding has_marker_def by blast
    define i where "i = (LEAST k. Suc k < length t \<and> t ! k = CHR ''&'' \<and> W (t ! Suc k))"
    have i: "Suc i < length t \<and> t ! i = CHR ''&'' \<and> W (t ! Suc i)"
      unfolding i_def using k by (rule LeastI)
    have "\<forall>j<i. \<not> (t ! j = CHR ''&'' \<and> W (t ! Suc j))"
    proof (intro allI impI)
      fix j assume "j < i"
      then have "\<not> (Suc j < length t \<and> t ! j = CHR ''&'' \<and> W (t ! Suc j))"
        unfolding i_def by (rule not_less_Least)
      moreover have "Suc j < length t" using \<open>j < i\<close> i by simp
      ultimately show "\<not> (t ! j = CHR ''&'' \<and> W (t ! Suc j))" by simp
    qed
    then have "rex_shortcut_letter_search W t = Some (t ! Suc i)"
      using i search_first by blast
    then show False using n by simp
  qed
next
  show "\<not> has_marker W t \<Longrightarrow> rex_shortcut_letter_search W t = None"
  proof (induction W t rule: rex_shortcut_letter_search.induct)
    case (1 W a b cs)
    have "\<not> (a = CHR ''&'' \<and> W b)"
      using "1.prems" unfolding has_marker_def by (auto dest: spec [of _ 0])
    moreover have "\<not> has_marker W (b # cs)"
      using "1.prems" unfolding has_marker_def by (auto dest: spec [of _ "Suc j" for j])
    ultimately show ?case using "1.IH" by simp
  qed simp_all
qed

lemma sort_eq_iff_mset:
  fixes xs ys :: "'a::linorder list"
  shows "sort xs = sort ys \<longleftrightarrow> mset xs = mset ys"
proof
  assume "sort xs = sort ys"
  then have "mset (sort xs) = mset (sort ys)" by simp
  then show "mset xs = mset ys" by simp
next
  assume "mset xs = mset ys"
  then have "mset (sort ys) = mset xs" by simp
  then show "sort xs = sort ys"
    using properties_for_sort [of "sort ys" xs] by simp
qed

lemma fold_add_entry:
  "fold (add_entry grps) es (map (\<lambda>(k, m). (k, f k)) grps) =
   map (\<lambda>(k, m). (k, f k @ map msgstr (filter (\<lambda>e. msgid e \<in> set (lookup grps k)) es))) grps"
proof (induction es arbitrary: f)
  case Nil
  show ?case by simp
next
  case (Cons e es)
  have step: "add_entry grps e (map (\<lambda>(k, m). (k, f k)) grps) =
    map (\<lambda>(k, m). (k, (\<lambda>k. if msgid e \<in> set (lookup grps k) then f k @ [msgstr e] else f k) k)) grps"
    by (simp add: add_entry_def case_prod_unfold)
  show ?case
    unfolding fold_simps step Cons.IH
    by (rule map_cong) (auto)
qed

lemma group_entries_eq:
  "group_entries grps es =
   map (\<lambda>(k, m). (k, map msgstr (filter (\<lambda>e. msgid e \<in> set (lookup grps k)) es))) grps"
  using fold_add_entry [of grps es "\<lambda>k. []"] by (simp add: group_entries_def)

lemma not_distinct_count:
  "\<not> distinct xs \<longleftrightarrow> (\<exists>c. 1 < count (mset xs) c)"
proof -
  have "count (mset xs) a = (if a \<in> set xs then 1 else 0) \<longleftrightarrow> \<not> 1 < count (mset xs) a" for a
  proof (cases "a \<in> set xs")
    case True
    then have "0 < count (mset xs) a" by (simp add: count_greater_zero_iff)
    then have "(count (mset xs) a = 1) = (\<not> 1 < count (mset xs) a)" by linarith
    then show ?thesis by (simp only: True if_True)
  next
    case False
    then have z: "count (mset xs) a = 0" by (simp add: count_eq_zero_iff)
    show ?thesis unfolding z using False by simp
  qed
  then show ?thesis unfolding distinct_count_atmost_1 by simp
qed

lemma length_gt_card: "length xs > card (set xs) \<longleftrightarrow> \<not> distinct xs"
proof (cases "distinct xs")
  case True
  then show ?thesis by (simp add: distinct_card)
next
  case False
  then have "card (set xs) \<noteq> length xs" using card_distinct by blast
  then show ?thesis using False card_length [of xs] by simp
qed

lemma has_marker_search:
  "has_marker W t = (rex_shortcut_letter_search W t \<noteq> None)"
  using search_None_iff [of W t] by auto

lemma count_list_filter:
  "count_list (filter P xs) c = (if P c then count_list xs c else 0)"
  by (induction xs) auto

lemma sub_count_diff:
  "int (count_list (rex_curly_pair_sub r) CHR ''{'') - int (count_list (rex_curly_pair_sub r) CHR ''}'') =
   int (count_list r CHR ''{'') - int (count_list r CHR ''}'')"
  by (induction r rule: rex_curly_pair_sub.induct) auto

lemma sub_set: "set (rex_curly_pair_sub r) \<subseteq> set r"
  by (induction r rule: rex_curly_pair_sub.induct) auto

lemma opened_sub:
  "opened_before_closed n r \<Longrightarrow> opened_before_closed n (rex_curly_pair_sub r)"
proof (induction r arbitrary: n rule: rex_curly_pair_sub.induct)
  case (1 a b cs)
  then show ?case by (auto split: if_splits)
qed simp_all

lemma opened_filter:
  "opened_before_closed n (rex_reduce_sub s) = opened_before_closed n s"
  by (induction s arbitrary: n) (auto simp: rex_reduce_sub_def)

lemma no_pair_no_close:
  "rex_curly_pair_findall x = [] \<Longrightarrow> x = [] \<or> hd x = CHR ''{'' \<Longrightarrow>
   set x \<subseteq> {CHR ''{'', CHR ''}''} \<Longrightarrow> CHR ''}'' \<notin> set x"
proof (induction x rule: rex_curly_pair_findall.induct)
  case (1 a b cs)
  then show ?case by (auto split: if_splits)
qed auto

lemma opened_hd:
  "opened_before_closed 0 x \<Longrightarrow> set x \<subseteq> {CHR ''{'', CHR ''}''} \<Longrightarrow> x = [] \<or> hd x = CHR ''{''"
  by (cases x) (auto split: if_splits)

lemma prefix_opened:
  "(\<forall>k\<le>length s. count_list (take k s) CHR ''}'' \<le> n + count_list (take k s) CHR ''{'') \<Longrightarrow>
   opened_before_closed n s"
proof (induction s arbitrary: n)
  case Nil
  show ?case by simp
next
  case (Cons c cs)
  have step: "count_list (take (Suc k) (c # cs)) CHR ''}'' \<le> n + count_list (take (Suc k) (c # cs)) CHR ''{''"
    if "k \<le> length cs" for k
    using Cons.prems that by (auto dest: spec [of _ "Suc k"])
  show ?case
  proof (cases "c = CHR ''{''")
    case True
    have "\<forall>k\<le>length cs. count_list (take k cs) CHR ''}'' \<le> Suc n + count_list (take k cs) CHR ''{''"
      using step True by auto
    then show ?thesis using Cons.IH True by simp
  next
    case False
    show ?thesis
    proof (cases "c = CHR ''}''")
      case True
      have "0 < n" using step [of 0] True by simp
      moreover have "\<forall>k\<le>length cs. count_list (take k cs) CHR ''}'' \<le> (n - 1) + count_list (take k cs) CHR ''{''"
        using step True \<open>0 < n\<close> by fastforce
      ultimately show ?thesis using Cons.IH True by simp
    next
      case c: False
      have "\<forall>k\<le>length cs. count_list (take k cs) CHR ''}'' \<le> n + count_list (take k cs) CHR ''{''"
        using step False c by auto
      then show ?thesis using Cons.IH False c by simp
    qed
  qed
qed

lemma no_braces_empty:
  "set x \<subseteq> {CHR ''{'', CHR ''}''} \<Longrightarrow> CHR ''}'' \<notin> set x \<Longrightarrow> count_list x CHR ''{'' = 0 \<Longrightarrow> x = []"
  by (cases x) (auto simp: count_list_0_iff)

lemma all_le_Suc_shift: "(\<forall>k\<le>Suc n. P k) = (P 0 \<and> (\<forall>k\<le>n. P (Suc k)))"
proof
  assume h: "\<forall>k\<le>Suc n. P k"
  show "P 0 \<and> (\<forall>k\<le>n. P (Suc k))" using h by auto
next
  assume h: "P 0 \<and> (\<forall>k\<le>n. P (Suc k))"
  show "\<forall>k\<le>Suc n. P k"
  proof (intro allI impI)
    fix k assume "k \<le> Suc n"
    then show "P k" using h by (cases k) auto
  qed
qed

lemma check_group_iff:
  "MaybeRedundant p' miss g src trs \<in> set (check_group W p grps (k, ts)) \<longleftrightarrow>
   p' = p \<and> g = k \<and> src = lookup grps k \<and> trs = ts \<and>
   miss = (length (collect_letters W ts []) < length ts) \<and> \<not> distinct (collect_letters W ts [])"
  by (auto simp: check_group_def Let_def length_gt_card)

lemma group_translations_letters:
  "mset (collect_letters W
     (map msgstr (filter (\<lambda>e. msgid e \<in> set members) (get_shortcut_entries W es))) []) =
   letters_used W members es"
proof -
  have "filter (\<lambda>e. msgid e \<in> set members) (get_shortcut_entries W es) =
        filter (\<lambda>e. obsolete e = 0 \<and> has_marker W (msgid e) \<and> msgid e \<in> set members) es"
    by (simp add: get_shortcut_entries_def has_marker_search conj_ac)
  then show ?thesis
    by (simp add: letters_used_def collect_letters_map_filter)
qed

lemma po_file_finding_iff:
  assumes keys: "distinct (map fst grps)" and mem: "(g, members) \<in> set grps"
  shows "(\<exists>miss src trs. MaybeRedundant p' miss g src trs \<in> set (check_po_file W grps (p, es))) =
         (p' = p \<and> (\<exists>c. 1 < count (letters_used W members es) c))"
proof -
  let ?ts = "\<lambda>k. map msgstr (filter (\<lambda>e. msgid e \<in> set (lookup grps k)) (get_shortcut_entries W es))"
  have look: "lookup grps g = members"
    using keys mem by (simp add: lookup_def)
  have out: "set (check_po_file W grps (p, es)) =
             (\<Union>x\<in>set grps. set (check_group W p grps (fst x, ?ts (fst x))))"
    by (simp add: check_po_file_def group_entries_eq case_prod_unfold o_def)
  have "(\<exists>miss src trs. MaybeRedundant p' miss g src trs \<in> set (check_po_file W grps (p, es))) =
        (p' = p \<and> \<not> distinct (collect_letters W (?ts g) []))"
  proof
    assume "\<exists>miss src trs. MaybeRedundant p' miss g src trs \<in> set (check_po_file W grps (p, es))"
    then obtain miss src trs x where "x \<in> set grps"
      and "MaybeRedundant p' miss g src trs \<in> set (check_group W p grps (fst x, ?ts (fst x)))"
      unfolding out by blast
    then show "p' = p \<and> \<not> distinct (collect_letters W (?ts g) [])"
      by (simp add: check_group_iff)
  next
    assume h: "p' = p \<and> \<not> distinct (collect_letters W (?ts g) [])"
    have "MaybeRedundant p' (length (collect_letters W (?ts g) []) < length (?ts g)) g
            (lookup grps g) (?ts g) \<in> set (check_group W p grps (fst (g, members), ?ts (fst (g, members))))"
      using h by (simp add: check_group_iff)
    then have "MaybeRedundant p' (length (collect_letters W (?ts g) []) < length (?ts g)) g
            (lookup grps g) (?ts g) \<in> set (check_po_file W grps (p, es))"
      unfolding out using mem by blast
    then show "\<exists>miss src trs. MaybeRedundant p' miss g src trs \<in> set (check_po_file W grps (p, es))"
      by blast
  qed
  also have "\<dots> = (p' = p \<and> (\<exists>c. 1 < count (letters_used W members es) c))"
    unfolding not_distinct_count look group_translations_letters ..
  finally show ?thesis .
qed

lemma get_shortcut_groups_Inr:
  assumes "get_shortcut_groups W tpl = Inr grps"
  shows "grps = [(''mainwindow'', [''Back In &Time'', ''&Backup'', ''&Restore'', ''&Help'']),
          (''manageprofile'', [''&General'', ''&Include'', ''&Exclude'', ''&Auto-remove'',
             ''&Options'', ''Back In &Time'', ''E&xpert Options''])]"
  using assms by (simp add: get_shortcut_groups_def Let_def expect_def split: if_splits)

lemma syntax_skip_plural:
  "concat (map (check_entry fmt) (filter (\<lambda>e. \<not> has_plural e \<and> tr e) es)) =
   concat (map (check_entry fmt) (filter tr es))"
  by (induction es) (auto simp: check_entry_def)

lemma shortcut_entries_plural:
  "get_shortcut_entries W (map (\<lambda>e. e\<lparr>msgid_plural := mp, msgstr_plural := sp\<rparr>) es) =
   map (\<lambda>e. e\<lparr>msgid_plural := mp, msgstr_plural := sp\<rparr>) (get_shortcut_entries W es)"
  by (induction es) (auto simp: get_shortcut_entries_def)

section \<open>The properties\<close>

text \<open>
  C1, as the code has it. The syntax check passes over every entry with a plural form:
  such an entry prints nothing, whatever it holds, and a po file prints the same with and
  without its plural entries. The shortcut check does not read the plural fields: a po
  file prints the same when the plural fields of its entries are emptied, so an entry with
  a plural form is grouped and its letter is collected like any other.
\<close>

theorem plural_entries_only_skipped_by_syntax_check:
  "(has_plural e \<longrightarrow> check_entry formatter_parse e = []) \<and>
   check_syntax_of_po_files formatter_parse translated
     (map (\<lambda>(po_path, pof). (po_path, filter (\<lambda>e. \<not> has_plural e) pof)) po_files) =
   check_syntax_of_po_files formatter_parse translated po_files \<and>
   check_po_file word_char grps
     (po_path, map (\<lambda>e. e\<lparr>msgid_plural := [], msgstr_plural := []\<rparr>) entries) =
   check_po_file word_char grps (po_path, entries)"
proof -
  have a: "has_plural e \<longrightarrow> check_entry formatter_parse e = []"
    by (simp add: check_entry_def)
  have b: "check_syntax_of_po_files formatter_parse translated
     (map (\<lambda>(po_path, pof). (po_path, filter (\<lambda>e. \<not> has_plural e) pof)) po_files) =
   check_syntax_of_po_files formatter_parse translated po_files"
    by (simp add: check_syntax_of_po_files_def case_prod_unfold o_def syntax_skip_plural)
  have c: "check_po_file word_char grps
     (po_path, map (\<lambda>e. e\<lparr>msgid_plural := [], msgstr_plural := []\<rparr>) entries) =
   check_po_file word_char grps (po_path, entries)"
    by (simp add: check_po_file_def shortcut_entries_plural group_entries_eq filter_map o_def)
  show ?thesis using a b c by blast
qed

theorem plural_entries_only_skipped_by_syntax_check_witness:
  "has_plural ((example_entry ''{n} file'' ''{n Datei'')\<lparr>msgid_plural := ''{n} files''\<rparr>) \<and>
   check_entry no_parse_error
     ((example_entry ''{n} file'' ''{n Datei'')\<lparr>msgid_plural := ''{n} files''\<rparr>) = [] \<and>
   check_entry no_parse_error (example_entry ''{n} file'' ''{n Datei'') =
     [CurlyNotBalanced ''{n Datei'', SourceString ''{n} file'']"
proof -
  have p: "has_plural ((example_entry ''{n} file'' ''{n Datei'')\<lparr>msgid_plural := ''{n} files''\<rparr>)"
    by (simp add: has_plural_def example_entry_def)
  have q: "check_entry no_parse_error (example_entry ''{n} file'' ''{n Datei'') =
     [CurlyNotBalanced ''{n Datei'', SourceString ''{n} file'']"
    by (simp add: check_entry_def has_plural_def example_entry_def curly_brackets_balanced_def
        rex_reduce_sub_def)
  show ?thesis
    using plural_entries_only_skipped_by_syntax_check
      [of "(example_entry ''{n} file'' ''{n Datei'')\<lparr>msgid_plural := ''{n} files''\<rparr>" no_parse_error]
      p q
    by blast
qed

text \<open>
  The property as it was stated fails for the shortcut check: a po file whose two entries
  both have a plural form prints a message for the group of the main window.
\<close>

theorem plural_entries_shortcut_counterexample:
  "has_plural ((example_entry ''&Backup'' ''&Sichern'')\<lparr>msgid_plural := ''&Backups''\<rparr>) \<and>
   has_plural ((example_entry ''&Restore'' ''&Speichern'')\<lparr>msgid_plural := ''&Restores''\<rparr>) \<and>
   check_shortcuts ascii_word_char example_template
     [(''de.po'', [(example_entry ''&Backup'' ''&Sichern'')\<lparr>msgid_plural := ''&Backups''\<rparr>,
                   (example_entry ''&Restore'' ''&Speichern'')\<lparr>msgid_plural := ''&Restores''\<rparr>])] =
   Inr [MaybeRedundant ''de.po'' False ''mainwindow''
          [''Back In &Time'', ''&Backup'', ''&Restore'', ''&Help'']
          [''&Sichern'', ''&Speichern'']]"
  by code_simp

text \<open>
  C2, as the code has it. A string with as many opening as closing brackets, in which no
  prefix has more closing than opening brackets, and in which no pair is left after the
  pairs were deleted once, is balanced.
\<close>

theorem balanced_when_opened_before_closed:
  assumes eq: "count_list s CHR ''{'' = count_list s CHR ''}''"
    and pre: "\<forall>k\<le>length s. count_list (take k s) CHR ''}'' \<le> count_list (take k s) CHR ''{''"
    and nest: "rex_curly_pair_findall (rex_curly_pair_sub (rex_reduce_sub s)) = []"
  shows "curly_brackets_balanced s = (True, [])"
proof -
  let ?r = "rex_reduce_sub s"
  let ?x = "rex_curly_pair_sub ?r"
  have braces: "set ?x \<subseteq> {CHR ''{'', CHR ''}''}"
    using sub_set [of ?r] by (auto simp: rex_reduce_sub_def)
  have "opened_before_closed 0 s" using pre prefix_opened [of s 0] by simp
  then have "opened_before_closed 0 ?x" by (simp add: opened_filter opened_sub)
  then have "?x = [] \<or> hd ?x = CHR ''{''" using braces by (rule opened_hd)
  then have noclose: "CHR ''}'' \<notin> set ?x" using nest braces no_pair_no_close by blast
  have "count_list ?r CHR ''{'' = count_list ?r CHR ''}''"
    using eq by (simp add: rex_reduce_sub_def count_list_filter)
  then have "int (count_list ?x CHR ''{'') = int (count_list ?x CHR ''}'')"
    using sub_count_diff [of ?r] by simp
  moreover have "count_list ?x CHR ''}'' = 0" using noclose by (simp add: count_list_0_iff)
  ultimately have "count_list ?x CHR ''{'' = 0" by simp
  then have "?x = []" using braces noclose no_braces_empty by blast
  then show ?thesis using nest by (simp add: curly_brackets_balanced_def)
qed

theorem balanced_when_opened_before_closed_witness:
  "curly_brackets_balanced ''a {x} b {y}'' = (True, [])"
proof -
  let ?s = "''a {x} b {y}''"
  have pre: "\<forall>k\<le>length ?s. count_list (take k ?s) CHR ''}'' \<le> count_list (take k ?s) CHR ''{''"
    by (simp add: all_le_Suc_shift)
  have eq: "count_list ?s CHR ''{'' = count_list ?s CHR ''}''" by simp
  have nest: "rex_curly_pair_findall (rex_curly_pair_sub (rex_reduce_sub ?s)) = []"
    by (simp add: rex_reduce_sub_def)
  show ?thesis using balanced_when_opened_before_closed [OF eq pre nest] .
qed

text \<open>
  The property as it was stated fails without the condition on the prefixes: the string
  \<^verbatim>\<open>}{\<close> has one bracket of each kind and no nested pair, and is not balanced.
\<close>

theorem balanced_equal_counts_counterexample:
  "count_list ''}{'' CHR ''{'' = count_list ''}{'' CHR ''}'' \<and>
   rex_curly_pair_findall (rex_curly_pair_sub (rex_reduce_sub ''}{'')) = [] \<and>
   curly_brackets_balanced ''}{'' = (False, [CurlyNotBalanced ''}{''])"
  by (simp add: curly_brackets_balanced_def rex_reduce_sub_def)

text \<open>
  C3, as the code has it. When the flag is absent and the numbers of both brackets agree,
  the names are compared as sorted lists, that is as multisets: the order is ignored, the
  number of times a name occurs is not.
\<close>

theorem place_holders_names_as_multisets:
  assumes "''ignore-placeholder-compare'' \<notin> set flgs"
    and "count_list src_string CHR ''{'' = count_list trans_string CHR ''{''"
    and "count_list src_string CHR ''}'' = count_list trans_string CHR ''}''"
  shows "place_holders trans_string src_string flgs =
         (if mset (rex_names_findall src_string) = mset (rex_names_findall trans_string)
          then (True, [])
          else (False, [NamesDiffer (rex_names_findall src_string)
                          (rex_names_findall trans_string) trans_string]))"
  using assms by (simp add: place_holders_def sort_eq_iff_mset)

theorem place_holders_names_as_multisets_witness:
  "place_holders ''{b} and {a}'' ''{a} or {b}'' [''fuzzy''] = (True, []) \<and>
   place_holders ''{a} and {c}'' ''{a} or {b}'' [] =
     (False, [NamesDiffer [''a'', ''b''] [''a'', ''c''] ''{a} and {c}''])"
proof -
  have f1: "''ignore-placeholder-compare'' \<notin> set [''fuzzy'']" by simp
  have f2: "''ignore-placeholder-compare'' \<notin> set []" by simp
  have o1: "count_list ''{a} or {b}'' CHR ''{'' = count_list ''{b} and {a}'' CHR ''{''" by simp
  have c1: "count_list ''{a} or {b}'' CHR ''}'' = count_list ''{b} and {a}'' CHR ''}''" by simp
  have o2: "count_list ''{a} or {b}'' CHR ''{'' = count_list ''{a} and {c}'' CHR ''{''" by simp
  have c2: "count_list ''{a} or {b}'' CHR ''}'' = count_list ''{a} and {c}'' CHR ''}''" by simp
  show ?thesis
    using place_holders_names_as_multisets [OF f1 o1 c1]
      place_holders_names_as_multisets [OF f2 o2 c2]
    by simp
qed

text \<open>
  The property as it was stated fails where the two sides have the same names, one of
  them more often on one side.
\<close>

theorem place_holders_names_set_counterexample:
  "''ignore-placeholder-compare'' \<notin> set [] \<and>
   count_list ''{a}{a}{b}'' CHR ''{'' = count_list ''{a}{b}{b}'' CHR ''{'' \<and>
   count_list ''{a}{a}{b}'' CHR ''}'' = count_list ''{a}{b}{b}'' CHR ''}'' \<and>
   set (rex_names_findall ''{a}{a}{b}'') = set (rex_names_findall ''{a}{b}{b}'') \<and>
   place_holders ''{a}{b}{b}'' ''{a}{a}{b}'' [] =
     (False, [NamesDiffer [''a'', ''a'', ''b''] [''a'', ''b'', ''b''] ''{a}{b}{b}''])"
  by code_simp

text \<open>
  C4. On a template with just the expected source strings the check of the source
  strings passes, and the string \<^verbatim>\<open>Back In &Time\<close> is in both groups: it is in the
  expected list and is put in front of it once more before the list is cut in two.
\<close>

theorem shortcut_groups_overlap:
  "get_shortcut_groups ascii_word_char example_template =
     Inr [(''mainwindow'', [''Back In &Time'', ''&Backup'', ''&Restore'', ''&Help'']),
          (''manageprofile'', [''&General'', ''&Include'', ''&Exclude'', ''&Auto-remove'',
             ''&Options'', ''Back In &Time'', ''E&xpert Options''])]"
  by code_simp

text \<open>
  C5. For the groups of a template, a po file among po files with distinct paths, and a
  group: a message for the po file and the group is printed if and only if some letter
  occurs more than once among the letters of the group, compared as characters. A
  translation without a marker adds no letter.
\<close>

theorem shortcut_collision_iff:
  assumes groups: "get_shortcut_groups word_char template = Inr grps"
    and mem: "(groupname, members) \<in> set grps"
    and paths: "distinct (map fst po_files)"
    and pofile: "(po_path, entries) \<in> set po_files"
  shows "(\<exists>out. check_shortcuts word_char template po_files = Inr out \<and>
            ((\<exists>missing src trs. MaybeRedundant po_path missing groupname src trs \<in> set out) =
             (\<exists>c. 1 < count (letters_used word_char members entries) c))) \<and>
         (rex_shortcut_letter_search word_char t = None \<longrightarrow>
            collect_letters word_char (before @ [t] @ after) [] =
            collect_letters word_char (before @ after) [])"
proof -
  have keys: "distinct (map fst grps)"
    using get_shortcut_groups_Inr [OF groups] by simp
  let ?out = "concat (map (check_po_file word_char grps) po_files)"
  have run: "check_shortcuts word_char template po_files = Inr ?out"
    by (simp add: check_shortcuts_def groups)
  have "(\<exists>missing src trs. MaybeRedundant po_path missing groupname src trs \<in> set ?out) =
        (\<exists>po\<in>set po_files. \<exists>missing src trs. MaybeRedundant po_path missing groupname src trs
              \<in> set (check_po_file word_char grps (fst po, snd po)))"
    by auto
  also have "\<dots> = (\<exists>po\<in>set po_files. po_path = fst po \<and>
                     (\<exists>c. 1 < count (letters_used word_char members (snd po)) c))"
    unfolding po_file_finding_iff [OF keys mem] ..
  also have "\<dots> = (\<exists>c. 1 < count (letters_used word_char members entries) c)"
  proof
    assume "\<exists>po\<in>set po_files. po_path = fst po \<and>
                     (\<exists>c. 1 < count (letters_used word_char members (snd po)) c)"
    then obtain po where po: "po \<in> set po_files" "po_path = fst po"
      and c: "\<exists>c. 1 < count (letters_used word_char members (snd po)) c" by blast
    have "(po_path, snd po) \<in> set po_files" using po by simp
    then have "snd po = entries" using pofile eq_key_imp_eq_value [OF paths] by blast
    then show "\<exists>c. 1 < count (letters_used word_char members entries) c" using c by simp
  next
    assume "\<exists>c. 1 < count (letters_used word_char members entries) c"
    then show "\<exists>po\<in>set po_files. po_path = fst po \<and>
                     (\<exists>c. 1 < count (letters_used word_char members (snd po)) c)"
      using pofile by force
  qed
  finally have iff: "(\<exists>missing src trs. MaybeRedundant po_path missing groupname src trs \<in> set ?out) =
        (\<exists>c. 1 < count (letters_used word_char members entries) c)" .
  have skip: "rex_shortcut_letter_search word_char t = None \<longrightarrow>
            collect_letters word_char (before @ [t] @ after) [] =
            collect_letters word_char (before @ after) []"
    by (simp add: collect_letters_map_filter map_filter_app List.map_filter_simps)
  show ?thesis using run iff skip by blast
qed

theorem shortcut_collision_iff_witness:
  "check_shortcuts ascii_word_char example_template
     [(''fr.po'', [example_entry ''&Backup'' ''&Sauvegarder'', example_entry ''&Restore'' ''&Restaurer'',
                   example_entry ''&Help'' ''&Support'']),
      (''de.po'', [example_entry ''&Backup'' ''&Sichern'', example_entry ''&Restore'' ''Wiederherstellen''])] =
   Inr [MaybeRedundant ''fr.po'' False ''mainwindow''
          [''Back In &Time'', ''&Backup'', ''&Restore'', ''&Help'']
          [''&Sauvegarder'', ''&Restaurer'', ''&Support'']] \<and>
   (\<exists>c. 1 < count (letters_used ascii_word_char [''Back In &Time'', ''&Backup'', ''&Restore'', ''&Help'']
               [example_entry ''&Backup'' ''&Sauvegarder'', example_entry ''&Restore'' ''&Restaurer'',
                example_entry ''&Help'' ''&Support'']) c)"
proof -
  let ?fr = "[example_entry ''&Backup'' ''&Sauvegarder'', example_entry ''&Restore'' ''&Restaurer'',
              example_entry ''&Help'' ''&Support'']"
  let ?de = "[example_entry ''&Backup'' ''&Sichern'', example_entry ''&Restore'' ''Wiederherstellen'']"
  let ?main = "[''Back In &Time'', ''&Backup'', ''&Restore'', ''&Help'']"
  let ?grps = "[(''mainwindow'', ?main),
          (''manageprofile'', [''&General'', ''&Include'', ''&Exclude'', ''&Auto-remove'',
             ''&Options'', ''Back In &Time'', ''E&xpert Options''])]"
  have groups: "get_shortcut_groups ascii_word_char example_template = Inr ?grps" by code_simp
  have mem: "(''mainwindow'', ?main) \<in> set ?grps" by simp
  have paths: "distinct (map fst [(''fr.po'', ?fr), (''de.po'', ?de)])" by simp
  have pofile: "(''fr.po'', ?fr) \<in> set [(''fr.po'', ?fr), (''de.po'', ?de)]" by simp
  have run: "check_shortcuts ascii_word_char example_template [(''fr.po'', ?fr), (''de.po'', ?de)] =
     Inr [MaybeRedundant ''fr.po'' False ''mainwindow'' ?main
          [''&Sauvegarder'', ''&Restaurer'', ''&Support'']]"
    by code_simp
  obtain out where o: "check_shortcuts ascii_word_char example_template [(''fr.po'', ?fr), (''de.po'', ?de)] = Inr out"
    and iff: "(\<exists>missing src trs. MaybeRedundant ''fr.po'' missing ''mainwindow'' src trs \<in> set out) =
              (\<exists>c. 1 < count (letters_used ascii_word_char ?main ?fr) c)"
    using shortcut_collision_iff [OF groups mem paths pofile] by blast
  have "out = [MaybeRedundant ''fr.po'' False ''mainwindow'' ?main
          [''&Sauvegarder'', ''&Restaurer'', ''&Support'']]"
    using o run by simp
  then have "\<exists>missing src trs. MaybeRedundant ''fr.po'' missing ''mainwindow'' src trs \<in> set out"
    by auto
  then have "\<exists>c. 1 < count (letters_used ascii_word_char ?main ?fr) c"
    using iff by simp
  then show ?thesis using run by simp
qed

text \<open>
  C6, as the code has it. The groups raise if and only if the source strings of the
  template that are not obsolete and have a marker differ, as a multiset, from the
  expected list. A string on one side only makes them raise, in either direction.
\<close>

theorem drift_check_multiset:
  "isl (get_shortcut_groups word_char template) =
     (mset (map msgid (filter (\<lambda>e. obsolete e = 0 \<and> has_marker word_char (msgid e)) template))
        \<noteq> mset expect) \<and>
   (s \<in> set (map msgid (filter (\<lambda>e. obsolete e = 0 \<and> has_marker word_char (msgid e)) template))
      \<and> s \<notin> set expect \<longrightarrow> isl (get_shortcut_groups word_char template)) \<and>
   (s \<in> set expect \<and>
    s \<notin> set (map msgid (filter (\<lambda>e. obsolete e = 0 \<and> has_marker word_char (msgid e)) template))
      \<longrightarrow> isl (get_shortcut_groups word_char template))"
proof -
  let ?real = "map msgid (filter (\<lambda>e. obsolete e = 0 \<and> has_marker word_char (msgid e)) template)"
  have real: "map msgid (get_shortcut_entries word_char template) = ?real"
    by (simp add: get_shortcut_entries_def search_None_iff)
  have iff: "isl (get_shortcut_groups word_char template) = (mset ?real \<noteq> mset expect)"
    unfolding get_shortcut_groups_def real Let_def by (simp add: sort_eq_iff_mset)
  have "mset ?real \<noteq> mset expect" if "set ?real \<noteq> set expect"
    using that mset_eq_setD by blast
  then show ?thesis using iff by blast
qed

theorem drift_check_multiset_witness:
  "isl (get_shortcut_groups ascii_word_char (example_entry ''&New'' [] # example_template)) \<and>
   isl (get_shortcut_groups ascii_word_char (tl example_template)) \<and>
   \<not> isl (get_shortcut_groups ascii_word_char example_template)"
proof -
  have t: "\<not> isl (get_shortcut_groups ascii_word_char example_template)" by code_simp
  have a: "''&New'' \<in> set (map msgid (filter (\<lambda>e. obsolete e = 0 \<and> has_marker ascii_word_char (msgid e))
             (example_entry ''&New'' [] # example_template))) \<and> ''&New'' \<notin> set expect"
    unfolding has_marker_search by code_simp
  have b: "''&Backup'' \<in> set expect \<and> ''&Backup'' \<notin> set (map msgid (filter (\<lambda>e. obsolete e = 0 \<and> has_marker ascii_word_char (msgid e))
             (tl example_template)))"
    unfolding has_marker_search by code_simp
  show ?thesis
    using drift_check_multiset [of ascii_word_char "example_entry ''&New'' [] # example_template" "''&New''"]
      drift_check_multiset [of ascii_word_char "tl example_template" "''&Backup''"] a b t
    by blast
qed

text \<open>
  The property as it was stated fails for a template that has an expected source string
  twice: the two sets are equal and the groups raise.
\<close>

theorem drift_check_set_counterexample:
  "set (map msgid (get_shortcut_entries ascii_word_char (example_entry ''&Help'' [] # example_template)))
     = set expect \<and>
   isl (get_shortcut_groups ascii_word_char (example_entry ''&Help'' [] # example_template))"
  by code_simp

text \<open>
  C7. For the source string \<^verbatim>\<open>Hello {name}\<close> and the translation
  \<^verbatim>\<open>Bonjour {nom}\<close>, which the parser of the Python library accepts: without the flag
  the entry prints that the names differ, with the flag the comparison returns true at
  once and the entry prints nothing.
\<close>

theorem hello_name_example:
  assumes "formatter_parse ''Bonjour {nom}'' = None"
  shows "check_entry formatter_parse
           \<lparr>msgid = ''Hello {name}'', msgstr = ''Bonjour {nom}'', msgid_plural = [],
            msgstr_plural = [], flags = flgs, obsolete = ob\<rparr> =
         (if ''ignore-placeholder-compare'' \<in> set flgs then []
          else [NamesDiffer [''name''] [''nom''] ''Bonjour {nom}'', SourceString ''Hello {name}'']) \<and>
         place_holders ''Bonjour {nom}'' ''Hello {name}'' flgs =
         (if ''ignore-placeholder-compare'' \<in> set flgs then (True, [])
          else (False, [NamesDiffer [''name''] [''nom''] ''Bonjour {nom}'']))"
proof -
  have bal: "curly_brackets_balanced ''Bonjour {nom}'' = (True, [])"
    by (simp add: curly_brackets_balanced_def rex_reduce_sub_def)
  have oth: "other_errors formatter_parse ''Bonjour {nom}'' = (True, [])"
    using assms by (simp add: other_errors_def)
  have ph: "place_holders ''Bonjour {nom}'' ''Hello {name}'' flgs =
         (if ''ignore-placeholder-compare'' \<in> set flgs then (True, [])
          else (False, [NamesDiffer [''name''] [''nom''] ''Bonjour {nom}'']))"
    by (simp add: place_holders_def)
  show ?thesis
    unfolding ph by (simp add: check_entry_def has_plural_def bal oth ph)
qed

theorem hello_name_example_witness:
  "check_entry no_parse_error
     \<lparr>msgid = ''Hello {name}'', msgstr = ''Bonjour {nom}'', msgid_plural = [],
      msgstr_plural = [], flags = [], obsolete = 0\<rparr> =
   [NamesDiffer [''name''] [''nom''] ''Bonjour {nom}'', SourceString ''Hello {name}''] \<and>
   check_entry no_parse_error
     \<lparr>msgid = ''Hello {name}'', msgstr = ''Bonjour {nom}'', msgid_plural = [],
      msgstr_plural = [], flags = [''ignore-placeholder-compare''], obsolete = 0\<rparr> = []"
proof -
  have h: "no_parse_error ''Bonjour {nom}'' = None" by (simp add: no_parse_error_def)
  show ?thesis
    using hello_name_example [where formatter_parse = no_parse_error and flgs = "[]" and ob = 0, OF h]
      hello_name_example [where formatter_parse = no_parse_error
        and flgs = "[''ignore-placeholder-compare'']" and ob = 0, OF h]
    by simp
qed

text \<open>
  C8. The three examples of the balance check.
\<close>

theorem curly_brackets_balanced_examples:
  "curly_brackets_balanced ''text {} more'' = (True, []) \<and>
   curly_brackets_balanced ''text { more'' = (False, [CurlyNotBalanced ''text { more'']) \<and>
   curly_brackets_balanced ''{{}}'' = (False, [CurlyNested ''{{}}''])"
  by (simp add: curly_brackets_balanced_def rex_reduce_sub_def)

text \<open>
  C10. A translation with a marker gives the search one result, the character behind
  the first marker, and adds just this letter to the letters of its group.
\<close>

theorem one_letter_per_translation:
  assumes "Suc k < length t" and "t ! k = CHR ''&''" and "word_char (t ! Suc k)"
  shows "\<exists>i\<le>k. t ! i = CHR ''&'' \<and> word_char (t ! Suc i) \<and>
           (\<forall>j<i. \<not> (t ! j = CHR ''&'' \<and> word_char (t ! Suc j))) \<and>
           rex_shortcut_letter_search word_char t = Some (t ! Suc i) \<and>
           collect_letters word_char (before @ [t] @ after) [] =
             collect_letters word_char before [] @ [t ! Suc i] @ collect_letters word_char after []"
proof -
  let ?M = "\<lambda>k. Suc k < length t \<and> t ! k = CHR ''&'' \<and> word_char (t ! Suc k)"
  define i where "i = (LEAST k. ?M k)"
  have k: "?M k" using assms by simp
  have i: "?M i" unfolding i_def using k by (rule LeastI)
  have le: "i \<le> k" unfolding i_def using k by (rule Least_le)
  have first: "\<forall>j<i. \<not> (t ! j = CHR ''&'' \<and> word_char (t ! Suc j))"
  proof (intro allI impI)
    fix j assume "j < i"
    then have "\<not> ?M j" unfolding i_def by (rule not_less_Least)
    moreover have "Suc j < length t" using \<open>j < i\<close> i by simp
    ultimately show "\<not> (t ! j = CHR ''&'' \<and> word_char (t ! Suc j))" by simp
  qed
  have s: "rex_shortcut_letter_search word_char t = Some (t ! Suc i)"
    using i first search_first by blast
  have "collect_letters word_char (before @ [t] @ after) [] =
        collect_letters word_char before [] @ [t ! Suc i] @ collect_letters word_char after []"
    by (simp add: collect_letters_map_filter map_filter_app List.map_filter_simps s)
  then show ?thesis using i le first s by blast
qed

theorem one_letter_per_translation_witness:
  "rex_shortcut_letter_search ascii_word_char ''Sa&ve && &quit'' = Some CHR ''v'' \<and>
   collect_letters ascii_word_char [''&Open'', ''Sa&ve && &quit'', ''Close''] [] = ''Ov''"
proof -
  have a: "Suc 2 < length ''Sa&ve && &quit''" by simp
  have b: "''Sa&ve && &quit'' ! 2 = CHR ''&''" by simp
  have c: "ascii_word_char (''Sa&ve && &quit'' ! Suc 2)" by (simp add: ascii_word_char_def)
  show ?thesis
    using one_letter_per_translation [where k = 2 and t = "''Sa&ve && &quit''"
        and word_char = ascii_word_char and before = "[''&Open'']" and after = "[''Close'']",
        OF a b c]
    by (simp add: ascii_word_char_def)
qed

end
